theory Spec2Isabelle
  imports Main "HOL-Library.Sublist" "HOL-Library.List_Lexorder" "HOL-Library.Product_Lexorder"
begin

section \<open>Python strings\<close>

text \<open>
  A Python \<^verbatim>\<open>str\<close> is a sequence of Unicode code points, and \<^verbatim>\<open>len\<close> counts code
  points. A code point is a natural number; a string is a list of them.
\<close>

type_synonym pychar = nat
type_synonym pystr = "pychar list"

text \<open>
  \<^verbatim>\<open>str.lower\<close> belongs to the standard library, not to this repository. Every function
  that calls it takes it as its first argument \<open>lower\<close>, a function on whole strings
  (the library's lowercasing may change the length of a string and looks at the context of
  a character). What a theorem needs of \<open>lower\<close> is written as a hypothesis of that theorem.
\<close>

text \<open>
  \<open>lower_basic\<close> is the lowercasing of the Basic Latin and Cyrillic capital letters, the
  alphabets of the word lists of this repository. It is used to evaluate the functions at
  concrete inputs.
\<close>

definition lower_cp :: "pychar \<Rightarrow> pychar" where
  "lower_cp c =
     (if 65 \<le> c \<and> c \<le> 90 then c + 32
      else if 1024 \<le> c \<and> c \<le> 1039 then c + 80
      else if 1040 \<le> c \<and> c \<le> 1071 then c + 32
      else c)"

definition lower_basic :: "pystr \<Rightarrow> pystr" where
  "lower_basic w = map lower_cp w"

text \<open>\<^verbatim>\<open>p in w\<close> for two strings: \<open>p\<close> occurs in \<open>w\<close> as a contiguous substring.\<close>

fun str_in :: "pystr \<Rightarrow> pystr \<Rightarrow> bool" where
  "str_in p [] = (p = [])"
| "str_in p (c # cs) = (prefix p (c # cs) \<or> str_in p cs)"

text \<open>\<^verbatim>\<open>set(w)\<close> for a string: the set of its characters, each a string of length one.\<close>

definition str_set :: "pystr \<Rightarrow> pystr set" where
  "str_set w = (\<lambda>c. [c]) ` set w"

section \<open>filter_and_export.py\<close>

subsection \<open>clean_wordlist\<close>

definition HYPHEN :: pychar where "HYPHEN = 45"
definition TILDE :: pychar where "TILDE = 126"
definition APOSTROPHE :: pychar where "APOSTROPHE = 39"
definition RIGHT_QUOTE :: pychar where "RIGHT_QUOTE = 8217"

text \<open>The test of line 60: the word holds an unwanted character.\<close>

definition unwanted :: "pystr \<Rightarrow> bool" where
  "unwanted word \<longleftrightarrow>
     HYPHEN \<in> set word \<or> TILDE \<in> set word \<or> APOSTROPHE \<in> set word \<or> RIGHT_QUOTE \<in> set word"

text \<open>
  The loop of lines 51 to 69, on the state \<open>(cleaned, seen)\<close>. The three \<^verbatim>\<open>continue\<close>
  branches leave the state as it is. The calls of \<^verbatim>\<open>print\<close> write to the console only.
\<close>

fun clean_loop ::
  "(pystr \<Rightarrow> pystr) \<Rightarrow> int \<Rightarrow> pystr list \<Rightarrow> pystr list \<times> pystr set \<Rightarrow> pystr list \<times> pystr set"
where
  "clean_loop lower min_length [] st = st"
| "clean_loop lower min_length (w # ws) (cleaned, seen) =
     (let word = lower w in
      if word \<in> seen then clean_loop lower min_length ws (cleaned, seen)
      else if unwanted word then clean_loop lower min_length ws (cleaned, seen)
      else if int (length word) < min_length then clean_loop lower min_length ws (cleaned, seen)
      else clean_loop lower min_length ws (cleaned @ [word], insert word seen))"

definition clean_wordlist :: "(pystr \<Rightarrow> pystr) \<Rightarrow> pystr list \<Rightarrow> int \<Rightarrow> pystr list" where
  "clean_wordlist lower words min_length = fst (clean_loop lower min_length words ([], {}))"

subsection \<open>selector\<close>

text \<open>Line 97, with \<open>must_have\<close> already lowercased by line 96.\<close>

definition allowed_letters :: "(pystr \<Rightarrow> pystr) \<Rightarrow> pystr \<Rightarrow> pystr list \<Rightarrow> pystr set" where
  "allowed_letters lower must_have optional = set ([must_have] @ map lower optional)"

text \<open>The loop of lines 100 to 109, on the list \<open>valid_words\<close>.\<close>

fun selector_loop ::
  "(pystr \<Rightarrow> pystr) \<Rightarrow> pystr \<Rightarrow> pystr set \<Rightarrow> int \<Rightarrow> pystr list \<Rightarrow> pystr list \<Rightarrow> pystr list"
where
  "selector_loop lower must_have allowed min_length [] valid_words = valid_words"
| "selector_loop lower must_have allowed min_length (w # ws) valid_words =
     (let word = lower w in
      if int (length word) < min_length \<or> \<not> str_in must_have word
      then selector_loop lower must_have allowed min_length ws valid_words
      else if str_set word \<subseteq> allowed
      then selector_loop lower must_have allowed min_length ws (valid_words @ [word])
      else selector_loop lower must_have allowed min_length ws valid_words)"

definition selector ::
  "(pystr \<Rightarrow> pystr) \<Rightarrow> pystr \<Rightarrow> pystr list \<Rightarrow> pystr list \<Rightarrow> int \<Rightarrow> pystr list"
where
  "selector lower must_have optional words min_length =
     (let must_have' = lower must_have;
          allowed = allowed_letters lower must_have' optional
      in selector_loop lower must_have' allowed min_length words [])"

text \<open>The test a lowercased word passes to be kept by \<open>selector_loop\<close>.\<close>

definition keeps :: "pystr \<Rightarrow> pystr set \<Rightarrow> int \<Rightarrow> pystr \<Rightarrow> bool" where
  "keeps must_have allowed min_length word \<longleftrightarrow>
     min_length \<le> int (length word) \<and> str_in must_have word \<and> str_set word \<subseteq> allowed"

subsection \<open>export_words\<close>

text \<open>
  \<^verbatim>\<open>export_words\<close> opens the file for writing with the UTF-8 encoding and calls
  \<^verbatim>\<open>json.dump(words, f, ensure_ascii=False, separators=(',', ':'))\<close>. The encoder of
  the \<^verbatim>\<open>json\<close> module and the UTF-8 codec belong to the standard library; they are
  written out here as the library documents them, for a list of strings.
\<close>

type_synonym byte = nat

text \<open>The UTF-8 codec refuses a surrogate code point.\<close>

datatype error = UnicodeEncodeError

definition surrogate :: "pychar \<Rightarrow> bool" where
  "surrogate c \<longleftrightarrow> 55296 \<le> c \<and> c < 57344"

text \<open>The bytes of one code point; a Python character is below \<open>0x110000\<close>.\<close>

definition utf8_char :: "pychar \<Rightarrow> error + byte list" where
  "utf8_char c =
     (if c < 128 then Inr [c]
      else if c < 2048 then Inr [192 + c div 64, 128 + c mod 64]
      else if c < 65536 then
        (if surrogate c then Inl UnicodeEncodeError
         else Inr [224 + c div 4096, 128 + (c div 64) mod 64, 128 + c mod 64])
      else if c < 1114112 then
        Inr [240 + c div 262144, 128 + (c div 4096) mod 64, 128 + (c div 64) mod 64, 128 + c mod 64]
      else Inl UnicodeEncodeError)"

fun utf8_encode :: "pystr \<Rightarrow> error + byte list" where
  "utf8_encode [] = Inr []"
| "utf8_encode (c # cs) =
     (case utf8_char c of
        Inl e \<Rightarrow> Inl e
      | Inr bs \<Rightarrow> (case utf8_encode cs of Inl e \<Rightarrow> Inl e | Inr r \<Rightarrow> Inr (bs @ r)))"

text \<open>
  The string encoder with \<^verbatim>\<open>ensure_ascii=False\<close>: the backslash, the double quote and
  the control characters below \<open>0x20\<close> are escaped (the last as a backslash, the letter u
  and four lowercase hexadecimal digits, save the five with a short form), every other
  character is written as it is.
\<close>

definition hex_digit :: "nat \<Rightarrow> pychar" where
  "hex_digit d = (if d < 10 then 48 + d else 87 + d)"

definition escape_char :: "pychar \<Rightarrow> pystr" where
  "escape_char c =
     (if c = 92 then [92, 92]
      else if c = 34 then [92, 34]
      else if c = 8 then [92, 98]
      else if c = 12 then [92, 102]
      else if c = 10 then [92, 110]
      else if c = 13 then [92, 114]
      else if c = 9 then [92, 116]
      else if c < 32 then [92, 117, 48, 48, hex_digit (c div 16), hex_digit (c mod 16)]
      else [c])"

definition encode_basestring :: "pystr \<Rightarrow> pystr" where
  "encode_basestring s = [34] @ concat (map escape_char s) @ [34]"

text \<open>
  A list is written as \<^verbatim>\<open>[\<close>, the items separated by the item separator \<^verbatim>\<open>,\<close>, and
  \<^verbatim>\<open>]\<close>; the empty list as \<^verbatim>\<open>[]\<close>.
\<close>

fun join_items :: "pystr list \<Rightarrow> pystr" where
  "join_items [] = []"
| "join_items [x] = x"
| "join_items (x # y # ys) = x @ [44] @ join_items (y # ys)"

definition json_dumps :: "pystr list \<Rightarrow> pystr" where
  "json_dumps words = [91] @ join_items (map encode_basestring words) @ [93]"

text \<open>
  The content of the file that \<open>export_words\<close> writes, or the error raised on the way.
  The size in megabytes that the function prints and returns is a floating point number of
  no concern here. The words are handed to the encoder as they are.
\<close>

definition export_words :: "pystr list \<Rightarrow> error + byte list" where
  "export_words words = utf8_encode (json_dumps words)"

section \<open>test_puzzle.py\<close>

text \<open>
  Lines 43 to 69 of \<^verbatim>\<open>main\<close>: the words of the puzzle, sorted by length and then by code
  points, and the pangrams among them. \<open>central\<close> is the letter read at line 25 and
  \<open>others\<close> the list of letters built at line 35. The call of \<open>selector\<close> leaves
  \<^verbatim>\<open>min_length\<close> at its default 4.
\<close>

definition puzzle_words :: "(pystr \<Rightarrow> pystr) \<Rightarrow> pystr \<Rightarrow> pystr list \<Rightarrow> pystr list \<Rightarrow> pystr list" where
  "puzzle_words lower central others words =
     sort_key (\<lambda>w. (length w, w)) (selector lower central others words 4)"

definition pangrams :: "pystr \<Rightarrow> pystr list \<Rightarrow> pystr list \<Rightarrow> pystr list" where
  "pangrams central others valid_words =
     (let all_letters = set ([central] @ others)
      in filter (\<lambda>w. str_set w = all_letters) valid_words)"

section \<open>Notions of the specification\<close>

text \<open>
  The list of first occurrences: every element of \<open>xs\<close> once, at the place where it
  first occurs.
\<close>

fun first_occ :: "'a list \<Rightarrow> 'a list" where
  "first_occ [] = []"
| "first_occ (x # xs) = x # filter (\<lambda>y. y \<noteq> x) (first_occ xs)"

text \<open>The two tests of lines 60 and 64 that a lowercased word passes to be kept.\<close>

definition accepted :: "int \<Rightarrow> pystr \<Rightarrow> bool" where
  "accepted min_length word \<longleftrightarrow> \<not> unwanted word \<and> min_length \<le> int (length word)"

text \<open>
  The Unicode scalar values: the code points that are not surrogates.
\<close>

definition scalar :: "pychar \<Rightarrow> bool" where
  "scalar c \<longleftrightarrow> c < 1114112 \<and> \<not> surrogate c"

text \<open>
  A parser of JSON texts, after RFC 8259, for the texts that are an array of strings:
  the bytes are decoded as UTF-8 (shortest forms only, no surrogates, nothing above
  \<open>0x10FFFF\<close>), white space is allowed around the brackets and the commas, a string runs to
  the next unescaped double quote, holds no raw control character, and its escapes are
  the eight short ones and the letter u with four hexadecimal digits, where an escaped
  high surrogate followed by an escaped low surrogate stands for one character. Any other
  text gives \<open>None\<close>.
\<close>

definition cont :: "byte \<Rightarrow> bool" where
  "cont b \<longleftrightarrow> 128 \<le> b \<and> b < 192"

fun utf8_decode :: "byte list \<Rightarrow> pystr option" where
  "utf8_decode [] = Some []"
| "utf8_decode (b # bs) =
     (if b < 128 then map_option (Cons b) (utf8_decode bs)
      else if 194 \<le> b \<and> b < 224 then
        (case bs of
           b1 # r \<Rightarrow>
             if cont b1 then map_option (Cons ((b - 192) * 64 + (b1 - 128))) (utf8_decode r)
             else None
         | _ \<Rightarrow> None)
      else if 224 \<le> b \<and> b < 240 then
        (case bs of
           b1 # b2 # r \<Rightarrow>
             (let c = (b - 224) * 4096 + (b1 - 128) * 64 + (b2 - 128) in
              if cont b1 \<and> cont b2 \<and> 2048 \<le> c \<and> \<not> surrogate c
              then map_option (Cons c) (utf8_decode r) else None)
         | _ \<Rightarrow> None)
      else if 240 \<le> b \<and> b < 245 then
        (case bs of
           b1 # b2 # b3 # r \<Rightarrow>
             (let c = (b - 240) * 262144 + (b1 - 128) * 4096 + (b2 - 128) * 64 + (b3 - 128) in
              if cont b1 \<and> cont b2 \<and> cont b3 \<and> 65536 \<le> c \<and> c < 1114112
              then map_option (Cons c) (utf8_decode r) else None)
         | _ \<Rightarrow> None)
      else None)"

definition is_ws :: "pychar \<Rightarrow> bool" where
  "is_ws c \<longleftrightarrow> c = 32 \<or> c = 9 \<or> c = 10 \<or> c = 13"

definition skip_ws :: "pystr \<Rightarrow> pystr" where
  "skip_ws cs = dropWhile is_ws cs"

definition hex_val :: "pychar \<Rightarrow> nat option" where
  "hex_val c =
     (if 48 \<le> c \<and> c \<le> 57 then Some (c - 48)
      else if 97 \<le> c \<and> c \<le> 102 then Some (c - 87)
      else if 65 \<le> c \<and> c \<le> 70 then Some (c - 55)
      else None)"

definition hex4 :: "pychar \<Rightarrow> pychar \<Rightarrow> pychar \<Rightarrow> pychar \<Rightarrow> nat option" where
  "hex4 h1 h2 h3 h4 =
     (case (hex_val h1, hex_val h2, hex_val h3, hex_val h4) of
        (Some a, Some b, Some c, Some d) \<Rightarrow> Some (((a * 16 + b) * 16 + c) * 16 + d)
      | _ \<Rightarrow> None)"

definition unescape :: "pychar \<Rightarrow> pychar option" where
  "unescape e =
     (if e = 34 then Some 34
      else if e = 92 then Some 92
      else if e = 47 then Some 47
      else if e = 98 then Some 8
      else if e = 102 then Some 12
      else if e = 110 then Some 10
      else if e = 114 then Some 13
      else if e = 116 then Some 9
      else None)"

definition low_surrogate_escape :: "pystr \<Rightarrow> (nat \<times> pystr) option" where
  "low_surrogate_escape cs =
     (case cs of
        b # u # h1 # h2 # h3 # h4 # r \<Rightarrow>
          if b = 92 \<and> u = 117 then
            (case hex4 h1 h2 h3 h4 of
               Some v \<Rightarrow> if 56320 \<le> v \<and> v < 57344 then Some (v, r) else None
             | None \<Rightarrow> None)
          else None
      | _ \<Rightarrow> None)"

definition read_escape :: "pystr \<Rightarrow> (pychar \<times> pystr) option" where
  "read_escape cs =
     (case cs of
        [] \<Rightarrow> None
      | e # r \<Rightarrow>
          if e = 117 then
            (case r of
               h1 # h2 # h3 # h4 # r' \<Rightarrow>
                 (case hex4 h1 h2 h3 h4 of
                    None \<Rightarrow> None
                  | Some v \<Rightarrow>
                      if 55296 \<le> v \<and> v < 56320 then
                        (case low_surrogate_escape r' of
                           Some (v2, r'') \<Rightarrow>
                             Some (65536 + (v - 55296) * 1024 + (v2 - 56320), r'')
                         | None \<Rightarrow> Some (v, r'))
                      else Some (v, r'))
             | _ \<Rightarrow> None)
          else (case unescape e of None \<Rightarrow> None | Some v \<Rightarrow> Some (v, r)))"

function parse_string :: "pystr \<Rightarrow> (pystr \<times> pystr) option" where
  "parse_string [] = None"
| "parse_string (c # cs) =
     (if c = 34 then Some ([], cs)
      else if c = 92 then
        (case read_escape cs of
           None \<Rightarrow> None
         | Some (v, r) \<Rightarrow>
             (case parse_string r of
                None \<Rightarrow> None
              | Some (s, rest) \<Rightarrow> Some (v # s, rest)))
      else if c < 32 then None
      else (case parse_string cs of
              None \<Rightarrow> None
            | Some (s, rest) \<Rightarrow> Some (c # s, rest)))"
  by pat_completeness auto
termination
proof (relation "measure length")
  show "wf (measure length)" by simp
next
  fix c :: pychar and cs r :: pystr and x2 :: "pychar \<times> pystr" and v :: pychar
  assume "read_escape cs = Some x2" and "(v, r) = x2"
  then have e: "read_escape cs = Some (v, r)" by simp
  have low: "length r'' < length r'" if "low_surrogate_escape r' = Some (v2, r'')" for r' r'' v2
    using that by (auto simp: low_surrogate_escape_def split: list.splits if_splits option.splits)
  from e have "length r < length cs"
    by (auto simp: read_escape_def split: list.splits if_splits option.splits dest!: low)
  then show "(r, c # cs) \<in> measure length" by simp
next
  fix c :: pychar and cs :: pystr
  show "(cs, c # cs) \<in> measure length" by simp
qed

function parse_items :: "pystr \<Rightarrow> (pystr list \<times> pystr) option" where
  "parse_items [] = None"
| "parse_items (c # cs) =
     (if c \<noteq> 34 then None
      else (case parse_string cs of
              None \<Rightarrow> None
            | Some (s, rest) \<Rightarrow>
                (case skip_ws rest of
                   [] \<Rightarrow> None
                 | d # r \<Rightarrow>
                     if d = 93 then Some ([s], r)
                     else if d = 44 then
                       (case parse_items (skip_ws r) of
                          None \<Rightarrow> None
                        | Some (ss, r') \<Rightarrow> Some (s # ss, r'))
                     else None)))"
  by pat_completeness auto
termination
proof (relation "measure length")
  show "wf (measure length)" by simp
next
  fix c d :: pychar and cs s rest r :: pystr and x2 :: "pystr \<times> pystr"
  assume p: "parse_string cs = Some x2" "(s, rest) = x2" and w: "skip_ws rest = d # r"
  have shorter: "length b < length a" if "parse_string a = Some (t, b)" for a b t
    using that
  proof (induction a arbitrary: t b rule: parse_string.induct)
    case 1
    then show ?case by simp
  next
    case (2 c cs)
    have esc: "length r < length cs" if "read_escape cs = Some (v, r)" for v r
      using that
      by (auto simp: read_escape_def low_surrogate_escape_def
          split: list.splits if_splits option.splits)
    from "2.prems" "2.IH" show ?case
      by (fastforce split: if_splits option.splits prod.splits dest: esc)
  qed
  from p have "length rest < length cs" by (auto dest: shorter)
  moreover have "length (skip_ws rest) \<le> length rest" "length (skip_ws r) \<le> length r"
    by (simp_all add: skip_ws_def length_dropWhile_le)
  ultimately show "(skip_ws r, c # cs) \<in> measure length"
    using w by simp
qed

definition parse_array :: "pystr \<Rightarrow> pystr list option" where
  "parse_array cs =
     (case skip_ws cs of
        [] \<Rightarrow> None
      | c # r \<Rightarrow>
          if c \<noteq> 91 then None
          else (case skip_ws r of
                  [] \<Rightarrow> None
                | d # r' \<Rightarrow>
                    (case (if d = 93 then Some ([], r') else parse_items (d # r')) of
                       None \<Rightarrow> None
                     | Some (ss, rest) \<Rightarrow> if skip_ws rest = [] then Some ss else None)))"

definition json_loads :: "byte list \<Rightarrow> pystr list option" where
  "json_loads bs = (case utf8_decode bs of None \<Rightarrow> None | Some cs \<Rightarrow> parse_array cs)"

section \<open>Properties\<close>

subsection \<open>Substring test\<close>

lemma str_in_sublist: "str_in p w \<longleftrightarrow> sublist p w"
  by (induction w) (simp_all add: sublist_Cons_right)

subsection \<open>The loop of selector as a filter\<close>

lemma selector_loop_filter:
  "selector_loop lower mh allowed ml ws acc =
     acc @ filter (keeps mh allowed ml) (map lower ws)"
  by (induction ws arbitrary: acc) (auto simp: keeps_def Let_def)

lemma selector_filter:
  "selector lower mh opt ws ml =
     filter (keeps (lower mh) (allowed_letters lower (lower mh) opt) ml) (map lower ws)"
  by (simp add: selector_def Let_def selector_loop_filter)

subsection \<open>Counting\<close>

lemma count_list_filter:
  "count_list (filter P xs) v = (if P v then count_list xs v else 0)"
  by (induction xs) auto

lemma count_list_map_length:
  "count_list (map f xs) v = length (filter (\<lambda>u. f u = v) xs)"
  by (induction xs) auto

subsection \<open>The loop of clean_wordlist as a filter of the first occurrences\<close>

lemma first_occ_filter: "first_occ (filter P xs) = filter P (first_occ xs)"
  by (induction xs) (auto intro!: filter_cong)

lemma set_first_occ: "set (first_occ xs) = set xs"
  by (induction xs) auto

lemma distinct_first_occ: "distinct (first_occ xs)"
  by (induction xs) (auto simp: set_first_occ)

lemma first_occ_distinct: "distinct xs \<Longrightarrow> first_occ xs = xs"
  by (induction xs) (auto simp: filter_id_conv)

lemma clean_loop_filter:
  "fst (clean_loop lower ml ws (cleaned, seen)) =
     cleaned @ filter (accepted ml) (first_occ (filter (\<lambda>w. w \<notin> seen) (map lower ws)))"
proof (induction ws arbitrary: cleaned seen)
  case Nil
  then show ?case by simp
next
  case (Cons w ws)
  let ?word = "lower w"
  have drop: "filter (accepted ml) (filter (\<lambda>y. y \<noteq> ?word) xs) = filter (accepted ml) xs"
    if "\<not> accepted ml ?word" for xs
    using that by (induction xs) auto
  have ins: "filter (\<lambda>v. v \<notin> insert ?word seen) xs = filter (\<lambda>y. y \<noteq> ?word) (filter (\<lambda>v. v \<notin> seen) xs)"
    for xs by (induction xs) auto
  show ?case
  proof (cases "?word \<in> seen")
    case True
    then show ?thesis using Cons.IH by (simp add: Let_def)
  next
    case False
    show ?thesis
    proof (cases "accepted ml ?word")
      case True
      then show ?thesis using False Cons.IH
        by (auto simp: Let_def accepted_def ins first_occ_filter intro!: filter_cong)
    next
      case na: False
      then have "unwanted ?word \<or> int (length ?word) < ml" by (auto simp: accepted_def)
      then show ?thesis using False na Cons.IH drop[OF na]
        by (auto simp: Let_def)
    qed
  qed
qed

lemma clean_wordlist_filter:
  "clean_wordlist lower words ml = filter (accepted ml) (first_occ (map lower words))"
  by (simp add: clean_wordlist_def clean_loop_filter)

subsection \<open>UTF-8: decoding what was encoded\<close>

lemma split3: "(c::nat) div 4096 * 4096 + c div 64 mod 64 * 64 + c mod 64 = c"
proof -
  define d where "d = c div 64"
  have e: "c div 4096 = d div 64" by (simp add: d_def div_mult2_eq[symmetric])
  have "d div 64 * 64 + d mod 64 = d" by simp
  then have "d div 64 * 4096 + d mod 64 * 64 = d * 64" by arith
  moreover have "d * 64 + c mod 64 = c" by (simp add: d_def)
  ultimately show ?thesis unfolding e d_def[symmetric] by arith
qed

lemma split4:
  "(c::nat) div 262144 * 262144 + c div 4096 mod 64 * 4096 + c div 64 mod 64 * 64 + c mod 64 = c"
proof -
  define d where "d = c div 4096"
  have e: "c div 262144 = d div 64" by (simp add: d_def div_mult2_eq[symmetric])
  have "d div 64 * 64 + d mod 64 = d" by simp
  then have "d div 64 * 262144 + d mod 64 * 4096 = d * 4096" by arith
  moreover have "d * 4096 + c div 64 mod 64 * 64 + c mod 64 = c"
    using split3[of c] by (simp add: d_def)
  ultimately show ?thesis unfolding e d_def[symmetric] by arith
qed

lemma utf8_char_decode:
  assumes "scalar c"
  shows "\<exists>bs. utf8_char c = Inr bs \<and> (\<forall>r. utf8_decode (bs @ r) = map_option (Cons c) (utf8_decode r))"
proof -
  consider "c < 128" | "128 \<le> c" "c < 2048" | "2048 \<le> c" "c < 65536" | "65536 \<le> c" "c < 1114112"
    using assms by (auto simp: scalar_def) linarith
  then show ?thesis
  proof cases
    case 1
    then show ?thesis by (simp add: utf8_char_def)
  next
    case 2
    then have "c div 64 < 32" "2 \<le> c div 64" by auto
    with 2 show ?thesis by (simp add: utf8_char_def cont_def)
  next
    case 3
    then have "c div 4096 < 16" by auto
    with 3 assms show ?thesis
      by (simp add: utf8_char_def cont_def scalar_def Let_def split3)
  next
    case 4
    then have "c div 262144 < 5" by auto
    with 4 assms show ?thesis
      by (simp add: utf8_char_def cont_def scalar_def Let_def split4)
  qed
qed

lemma utf8_encode_decode:
  assumes "\<forall>c \<in> set cs. scalar c"
  shows "\<exists>bs. utf8_encode cs = Inr bs \<and> utf8_decode bs = Some cs"
  using assms
proof (induction cs)
  case Nil
  then show ?case by simp
next
  case (Cons c cs)
  then obtain r where r: "utf8_encode cs = Inr r" "utf8_decode r = Some cs" by auto
  from Cons.prems have "scalar c" by simp
  from utf8_char_decode[OF this] obtain bs where
    bs: "utf8_char c = Inr bs" "\<And>r. utf8_decode (bs @ r) = map_option (Cons c) (utf8_decode r)"
    by blast
  show ?case by (simp add: r bs)
qed

subsection \<open>JSON: parsing what was written\<close>

lemma hex_val_digit: "d < 16 \<Longrightarrow> hex_val (hex_digit d) = Some d"
  by (auto simp: hex_val_def hex_digit_def)

lemma hex4_control: "c < 32 \<Longrightarrow> hex4 48 48 (hex_digit (c div 16)) (hex_digit (c mod 16)) = Some c"
proof -
  assume "c < 32"
  then have "c div 16 < 16" by simp
  then show ?thesis
    by (simp add: hex4_def hex_val_digit) (simp add: hex_val_def)
qed

lemma parse_string_escape_char:
  "parse_string (escape_char c @ rest) =
     (case parse_string rest of None \<Rightarrow> None | Some (s, r) \<Rightarrow> Some (c # s, r))"
proof -
  consider "c = 92" | "c = 34" | "c = 8" | "c = 12" | "c = 10" | "c = 13" | "c = 9"
    | "c < 32" "c \<noteq> 8" "c \<noteq> 12" "c \<noteq> 10" "c \<noteq> 13" "c \<noteq> 9"
    | "32 \<le> c" "c \<noteq> 92" "c \<noteq> 34"
    by fastforce
  then show ?thesis
  proof cases
    case 8
    then have e: "escape_char c = [92, 117, 48, 48, hex_digit (c div 16), hex_digit (c mod 16)]"
      by (simp add: escape_char_def)
    have "read_escape (117 # 48 # 48 # hex_digit (c div 16) # hex_digit (c mod 16) # rest) = Some (c, rest)"
      using 8(1) by (simp add: read_escape_def hex4_control)
    then show ?thesis by (simp add: e)
  next
    case 9
    then show ?thesis by (simp add: escape_char_def)
  qed (auto simp add: escape_char_def read_escape_def unescape_def)
qed

lemma parse_string_body:
  "parse_string (concat (map escape_char s) @ 34 # rest) = Some (s, rest)"
  by (induction s) (simp_all add: parse_string_escape_char)

lemma skip_ws_token: "\<not> is_ws c \<Longrightarrow> skip_ws (c # cs) = c # cs"
  by (simp add: skip_ws_def)

lemma join_items_quote:
  "\<exists>t. join_items (map encode_basestring (w # ws)) = 34 # t"
  by (cases ws) (simp_all add: encode_basestring_def)

lemma parse_items_join:
  "parse_items (join_items (map encode_basestring (w # ws)) @ 93 # rest) = Some (w # ws, rest)"
proof (induction ws arbitrary: w)
  case Nil
  show ?case
    by (simp add: encode_basestring_def parse_string_body skip_ws_token is_ws_def)
next
  case (Cons v ws)
  obtain t where t: "join_items (map encode_basestring (v # ws)) = 34 # t"
    using join_items_quote by blast
  have "parse_items (join_items (map encode_basestring (w # v # ws)) @ 93 # rest) =
        parse_items (34 # concat (map escape_char w) @ 34 # 44 # 34 # t @ 93 # rest)"
    using t by (simp add: encode_basestring_def)
  also have "\<dots> = (case parse_items (34 # t @ 93 # rest) of
                       None \<Rightarrow> None
                     | Some (ss, r') \<Rightarrow> Some (w # ss, r'))"
    by (subst parse_items.simps) (simp add: parse_string_body skip_ws_token is_ws_def
        del: parse_items.simps)
  also have "\<dots> = Some (w # v # ws, rest)"
  proof -
    have "parse_items (34 # t @ 93 # rest) = Some (v # ws, rest)"
      using Cons.IH [of v] by (simp only: t append_Cons)
    then show ?thesis by (simp del: parse_items.simps)
  qed
  finally show ?case .
qed

lemma parse_array_dumps: "parse_array (json_dumps words) = Some words"
proof (cases words)
  case Nil
  have "skip_ws [] = []" by (simp add: skip_ws_def)
  with Nil show ?thesis
    by (simp add: parse_array_def json_dumps_def skip_ws_token is_ws_def)
next
  case (Cons w ws)
  obtain t where t: "join_items (map encode_basestring (w # ws)) = 34 # t"
    using join_items_quote by blast
  have "parse_array (json_dumps (w # ws)) =
     (case parse_items (34 # t @ [93]) of
        None \<Rightarrow> None
      | Some (ss, rest) \<Rightarrow> if skip_ws rest = [] then Some ss else None)"
    by (simp add: parse_array_def json_dumps_def t skip_ws_token is_ws_def
        del: join_items.simps list.map parse_items.simps)
  also have "\<dots> = Some (w # ws)"
  proof -
    have "parse_items (34 # t @ [93]) = Some (w # ws, [])"
      using parse_items_join [of w ws "[]"] by (simp only: t append_Cons)
    then show ?thesis by (simp add: skip_ws_def del: parse_items.simps)
  qed
  finally show ?thesis using Cons by simp
qed

lemma scalar_ascii: "c < 128 \<Longrightarrow> scalar c"
  by (simp add: scalar_def surrogate_def)

lemma scalar_escape_char: "scalar c \<Longrightarrow> d \<in> set (escape_char c) \<Longrightarrow> scalar d"
  by (auto simp: escape_char_def hex_digit_def scalar_ascii split: if_splits)

lemma scalar_encode_basestring:
  "\<forall>c \<in> set w. scalar c \<Longrightarrow> d \<in> set (encode_basestring w) \<Longrightarrow> scalar d"
  by (auto simp: encode_basestring_def scalar_ascii dest: scalar_escape_char)

lemma scalar_join_items:
  "\<forall>x \<in> set xs. \<forall>c \<in> set x. scalar c \<Longrightarrow> d \<in> set (join_items xs) \<Longrightarrow> scalar d"
  by (induction xs rule: join_items.induct) (auto simp: scalar_ascii)

lemma scalar_json_dumps:
  assumes "\<forall>w \<in> set words. \<forall>c \<in> set w. scalar c"
  shows "\<forall>d \<in> set (json_dumps words). scalar d"
proof -
  have "\<forall>x \<in> set (map encode_basestring words). \<forall>c \<in> set x. scalar c"
    using assms by (auto dest: scalar_encode_basestring)
  then have "scalar d" if "d \<in> set (join_items (map encode_basestring words))" for d
    using that by (rule scalar_join_items)
  then show ?thesis
    by (auto simp: json_dumps_def scalar_ascii)
qed

subsection \<open>Evaluation at concrete inputs\<close>

lemmas eval_defs = selector_def allowed_letters_def lower_basic_def lower_cp_def str_set_def Let_def
  clean_wordlist_def unwanted_def HYPHEN_def TILDE_def APOSTROPHE_def RIGHT_QUOTE_def

section \<open>Claims\<close>

text \<open>
  C1. Every word \<open>w\<close> that \<open>selector\<close> returns has its characters among the lowercased
  \<open>must_have\<close> and the lowercased members of \<open>optional\<close>, holds the lowercased
  \<open>must_have\<close> as a substring, and has at least \<open>min_length\<close> characters.
\<close>

theorem selector_subset:
  assumes "w \<in> set (selector lower must_have optional words min_length)"
  shows "str_set w \<subseteq> {lower must_have} \<union> lower ` set optional
         \<and> sublist (lower must_have) w
         \<and> min_length \<le> int (length w)"
  using assms
  by (auto simp: selector_filter keeps_def allowed_letters_def str_in_sublist)

theorem selector_subset_witness:
  "[101, 97, 116, 115] \<in> set (selector lower_basic [69] [[97], [84], [115]]
       [[69, 97, 116, 115], [115, 101, 97, 116], [116, 101, 97], [101, 97, 115, 101]] 4)
   \<and> str_set [101, 97, 116, 115] \<subseteq> {lower_basic [69]} \<union> lower_basic ` set [[97], [84], [115]]
   \<and> sublist (lower_basic [69]) [101, 97, 116, 115]
   \<and> (4::int) \<le> int (length [101, 97, 116, 115::nat])"
proof -
  have h: "[101, 97, 116, 115] \<in> set (selector lower_basic [69] [[97], [84], [115]]
       [[69, 97, 116, 115], [115, 101, 97, 116], [116, 101, 97], [101, 97, 115, 101]] 4)"
    by (simp add: eval_defs)
  from selector_subset [OF h] h show ?thesis by blast
qed

text \<open>
  C2. The output of \<open>clean_wordlist\<close> is in the order of the first occurrences of the
  lowercased input, no two of its entries are equal under lowercasing (when lowercasing a
  lowercased word of the input changes nothing), and every entry has at least
  \<open>min_length\<close> characters and none of the hyphen, the tilde, the apostrophe and the right
  single quotation mark.
\<close>

theorem clean_wordlist_guarantees:
  "subseq (clean_wordlist lower words min_length) (first_occ (map lower words))
   \<and> distinct (clean_wordlist lower words min_length)
   \<and> ((\<forall>w \<in> set words. lower (lower w) = lower w) \<longrightarrow>
        distinct (map lower (clean_wordlist lower words min_length)))
   \<and> (\<forall>w \<in> set (clean_wordlist lower words min_length).
         min_length \<le> int (length w)
         \<and> HYPHEN \<notin> set w \<and> TILDE \<notin> set w \<and> APOSTROPHE \<notin> set w \<and> RIGHT_QUOTE \<notin> set w)"
proof -
  let ?out = "clean_wordlist lower words min_length"
  have d: "distinct ?out"
    by (simp add: clean_wordlist_filter distinct_first_occ)
  have "distinct (map lower ?out)" if idem: "\<forall>w \<in> set words. lower (lower w) = lower w"
  proof -
    have "lower v = v" if "v \<in> set ?out" for v
      using that idem by (auto simp: clean_wordlist_filter set_first_occ)
    then have "map lower ?out = ?out" by (simp add: map_idI)
    with d show ?thesis by simp
  qed
  moreover have "subseq ?out (first_occ (map lower words))"
    by (simp add: clean_wordlist_filter)
  moreover have "\<forall>w \<in> set ?out. min_length \<le> int (length w)
               \<and> HYPHEN \<notin> set w \<and> TILDE \<notin> set w \<and> APOSTROPHE \<notin> set w \<and> RIGHT_QUOTE \<notin> set w"
    by (auto simp: clean_wordlist_filter accepted_def unwanted_def)
  ultimately show ?thesis using d by blast
qed

theorem clean_wordlist_guarantees_witness:
  "clean_wordlist lower_basic
      [[65, 112, 112, 108, 101], [97, 112, 112, 108, 101], [97, 45, 98], [104, 105],
       [116, 101, 115, 116]] 4 = [[97, 112, 112, 108, 101], [116, 101, 115, 116]]
   \<and> subseq [[97, 112, 112, 108, 101], [116, 101, 115, 116]]
       (first_occ (map lower_basic
          [[65, 112, 112, 108, 101], [97, 112, 112, 108, 101], [97, 45, 98], [104, 105],
           [116, 101, 115, 116]]))
   \<and> distinct (map lower_basic [[97, 112, 112, 108, 101], [116, 101, 115, 116]])"
proof -
  have h: "\<forall>w \<in> set [[65, 112, 112, 108, 101], [97, 112, 112, 108, 101], [97, 45, 98],
             [104, 105], [116, 101, 115, 116]]. lower_basic (lower_basic w) = lower_basic w"
    by (simp add: lower_basic_def lower_cp_def)
  have e: "clean_wordlist lower_basic
      [[65, 112, 112, 108, 101], [97, 112, 112, 108, 101], [97, 45, 98], [104, 105],
       [116, 101, 115, 116]] 4 = [[97, 112, 112, 108, 101], [116, 101, 115, 116]]"
    by (simp add: eval_defs)
  from clean_wordlist_guarantees [of lower_basic
      "[[65, 112, 112, 108, 101], [97, 112, 112, 108, 101], [97, 45, 98], [104, 105],
        [116, 101, 115, 116]]" 4] h
  show ?thesis
    unfolding e by blast
qed

text \<open>
  C3. Cleaning is idempotent: cleaning a cleaned list gives the same list, when lowercasing
  a lowercased word of the input changes nothing.
\<close>

theorem clean_wordlist_idempotent:
  assumes "\<forall>w \<in> set L. lower (lower w) = lower w"
  shows "clean_wordlist lower (clean_wordlist lower L min_length) min_length =
           clean_wordlist lower L min_length"
proof -
  let ?out = "clean_wordlist lower L min_length"
  have "lower v = v" if "v \<in> set ?out" for v
    using that assms by (auto simp: clean_wordlist_filter set_first_occ)
  then have m: "map lower ?out = ?out" by (simp add: map_idI)
  have d: "distinct ?out"
    by (simp add: clean_wordlist_filter distinct_first_occ)
  have "clean_wordlist lower ?out min_length = filter (accepted min_length) ?out"
    by (simp add: clean_wordlist_filter[of lower ?out] m first_occ_distinct[OF d])
  also have "\<dots> = ?out"
    by (simp add: clean_wordlist_filter)
  finally show ?thesis .
qed

theorem clean_wordlist_idempotent_witness:
  "clean_wordlist lower_basic
      (clean_wordlist lower_basic [[65, 112, 112, 108, 101], [97, 112, 112, 108, 101], [104, 105]] 4) 4
     = clean_wordlist lower_basic [[65, 112, 112, 108, 101], [97, 112, 112, 108, 101], [104, 105]] 4
   \<and> clean_wordlist lower_basic [[65, 112, 112, 108, 101], [97, 112, 112, 108, 101], [104, 105]] 4
     = [[97, 112, 112, 108, 101]]"
proof -
  have h: "\<forall>w \<in> set [[65, 112, 112, 108, 101], [97, 112, 112, 108, 101], [104, 105]].
             lower_basic (lower_basic w) = lower_basic w"
    by (simp add: lower_basic_def lower_cp_def)
  have e: "clean_wordlist lower_basic [[65, 112, 112, 108, 101], [97, 112, 112, 108, 101], [104, 105]] 4
     = [[97, 112, 112, 108, 101]]"
    by (simp add: eval_defs)
  from clean_wordlist_idempotent [OF h, of 4] e show ?thesis by blast
qed

text \<open>
  C4. The result of \<open>selector\<close> is a subsequence of the list of the lowercased words, in
  their order; and every word of the result is its own lowercase form, when lowercasing a
  lowercased word of the input changes nothing (as \<^verbatim>\<open>str.lower\<close> does).
\<close>

theorem selector_subseq_lowercase:
  "subseq (selector lower must_have optional words min_length) (map lower words)
   \<and> ((\<forall>w \<in> set words. lower (lower w) = lower w) \<longrightarrow>
        (\<forall>w \<in> set (selector lower must_have optional words min_length). lower w = w))"
  by (auto simp: selector_filter)

theorem selector_subseq_lowercase_witness:
  "subseq (selector lower_basic [101] [[97], [116], [115]]
             [[69, 97, 116, 115], [116, 101, 97], [83, 69, 65, 84]] 4)
          (map lower_basic [[69, 97, 116, 115], [116, 101, 97], [83, 69, 65, 84]])
   \<and> selector lower_basic [101] [[97], [116], [115]]
             [[69, 97, 116, 115], [116, 101, 97], [83, 69, 65, 84]] 4
       = [[101, 97, 116, 115], [115, 101, 97, 116]]
   \<and> lower_basic [115, 101, 97, 116] = [115, 101, 97, 116]"
proof -
  have h: "\<forall>w \<in> set [[69, 97, 116, 115], [116, 101, 97], [83, 69, 65, 84]].
             lower_basic (lower_basic w) = lower_basic w"
    by (simp add: lower_basic_def lower_cp_def)
  have e: "selector lower_basic [101] [[97], [116], [115]]
             [[69, 97, 116, 115], [116, 101, 97], [83, 69, 65, 84]] 4
       = [[101, 97, 116, 115], [115, 101, 97, 116]]"
    by (simp add: eval_defs)
  note t = selector_subseq_lowercase [of lower_basic "[101]" "[[97], [116], [115]]"
      "[[69, 97, 116, 115], [116, 101, 97], [83, 69, 65, 84]]" 4]
  from t h have "\<forall>w \<in> set (selector lower_basic [101] [[97], [116], [115]]
             [[69, 97, 116, 115], [116, 101, 97], [83, 69, 65, 84]] 4). lower_basic w = w"
    by blast
  then have l: "lower_basic [115, 101, 97, 116] = [115, 101, 97, 116]"
    unfolding e by simp
  from t e l show ?thesis by blast
qed

text \<open>
  C5. Export round trip. A string with a surrogate code point cannot be encoded as UTF-8:
  \<open>export_words\<close> raises \<open>UnicodeEncodeError\<close> on it, so the round trip does not hold
  for every list of strings.
\<close>

theorem export_words_surrogate: "export_words [[55296]] = Inl UnicodeEncodeError"
  by (simp add: export_words_def json_dumps_def encode_basestring_def escape_char_def
      utf8_char_def surrogate_def)

text \<open>
  C5, amended. For every list of strings whose characters are Unicode scalar values,
  \<open>export_words\<close> writes a sequence of bytes, and parsing these bytes as JSON gives the
  list of strings back: same strings, same order, same case, none dropped.
\<close>

theorem export_words_roundtrip:
  assumes "\<forall>w \<in> set words. \<forall>c \<in> set w. scalar c"
  shows "\<exists>bs. export_words words = Inr bs \<and> json_loads bs = Some words"
proof -
  from utf8_encode_decode [OF scalar_json_dumps [OF assms]]
  obtain bs where "utf8_encode (json_dumps words) = Inr bs"
    and "utf8_decode bs = Some (json_dumps words)"
    by blast
  then show ?thesis
    by (simp add: export_words_def json_loads_def parse_array_dumps)
qed

theorem export_words_roundtrip_witness:
  "export_words [[66], [1077, 34, 10]] =
     Inr [91, 34, 66, 34, 44, 34, 208, 181, 92, 34, 92, 110, 34, 93]
   \<and> json_loads [91, 34, 66, 34, 44, 34, 208, 181, 92, 34, 92, 110, 34, 93] =
       Some [[66], [1077, 34, 10]]"
proof -
  have h: "\<forall>w \<in> set [[66], [1077, 34, 10]]. \<forall>c \<in> set w. scalar c"
    by (simp add: scalar_def surrogate_def)
  have e: "export_words [[66], [1077, 34, 10]] =
     Inr [91, 34, 66, 34, 44, 34, 208, 181, 92, 34, 92, 110, 34, 93]"
    by (simp add: export_words_def json_dumps_def encode_basestring_def escape_char_def
      utf8_char_def surrogate_def)
  from export_words_roundtrip [OF h] e show ?thesis by simp
qed

text \<open>
  C6. The required letter may be given again among the optional letters: the result of
  \<open>selector\<close> is the same with \<open>must_have\<close> put in front of \<open>optional\<close>, and the set of
  allowed letters that \<open>selector\<close> builds always has the lowercased \<open>must_have\<close> as a member.
\<close>

theorem selector_redundant_must_have:
  "selector lower must_have optional words min_length =
     selector lower must_have ([must_have] @ optional) words min_length
   \<and> lower must_have \<in> allowed_letters lower (lower must_have) optional"
  by (simp add: selector_filter allowed_letters_def)

text \<open>
  C7. With \<open>min_length \<le> 0\<close> no word is removed for its length: the lowercase form of every
  input word without an unwanted character, the empty word too, is in the output.
\<close>

theorem clean_wordlist_no_length_filter:
  assumes "min_length \<le> 0" and "w \<in> set words" and "\<not> unwanted (lower w)"
  shows "lower w \<in> set (clean_wordlist lower words min_length)"
  using assms by (auto simp: clean_wordlist_filter set_first_occ accepted_def)

theorem clean_wordlist_no_length_filter_witness:
  "lower_basic [] \<in> set (clean_wordlist lower_basic [[72, 105], [], [97, 45, 98]] (- 1))"
proof -
  have a: "(- 1 :: int) \<le> 0" by simp
  have b: "[] \<in> set [[72, 105], [], [97, 45, 98::nat]]" by simp
  have c: "\<not> unwanted (lower_basic [])" by (simp add: unwanted_def lower_basic_def)
  from clean_wordlist_no_length_filter
      [of "- 1" "[]" "[[72, 105], [], [97, 45, 98]]" lower_basic, OF a b c]
  show ?thesis .
qed

text \<open>
  C8. A word is listed as a pangram exactly when it is one of the words \<open>selector\<close> returned
  and the set of its characters equals the set of the central letter and the other letters;
  that set is the set of allowed letters of \<open>selector\<close> when the letters are lowercase, as
  the letters read by \<^verbatim>\<open>main\<close> are.
\<close>

theorem pangram_iff:
  "(w \<in> set (pangrams central others (puzzle_words lower central others words))
      \<longleftrightarrow> w \<in> set (selector lower central others words 4)
          \<and> str_set w = {central} \<union> set others)
   \<and> (lower central = central \<and> (\<forall>c \<in> set others. lower c = c)
        \<longrightarrow> {central} \<union> set others = allowed_letters lower (lower central) others)"
  by (auto simp: pangrams_def puzzle_words_def allowed_letters_def Let_def)

theorem pangram_iff_witness:
  "[101, 97, 116, 115] \<in> set (pangrams [101] [[97], [116], [115]]
       (puzzle_words lower_basic [101] [[97], [116], [115]]
          [[101, 97, 116, 115], [101, 97, 115, 101], [116, 101, 97]]))
   \<and> [101, 97, 115, 101] \<notin> set (pangrams [101] [[97], [116], [115]]
       (puzzle_words lower_basic [101] [[97], [116], [115]]
          [[101, 97, 116, 115], [101, 97, 115, 101], [116, 101, 97]]))
   \<and> {[101]} \<union> set [[97], [116], [115]] =
       allowed_letters lower_basic (lower_basic [101]) [[97], [116], [115]]"
proof -
  have s: "selector lower_basic [101] [[97], [116], [115]]
          [[101, 97, 116, 115], [101, 97, 115, 101], [116, 101, 97]] 4
        = [[101, 97, 116, 115], [101, 97, 115, 101]]"
    by (simp add: eval_defs)
  have l: "lower_basic [101] = [101] \<and> (\<forall>c \<in> set [[97], [116], [115]]. lower_basic c = c)"
    by (simp add: lower_basic_def lower_cp_def)
  have p: "str_set [101, 97, 116, 115] = {[101]} \<union> set [[97], [116], [115]]"
    by code_simp
  have q: "str_set [101, 97, 115, 101] \<noteq> {[101]} \<union> set [[97], [116], [115]]"
    by code_simp
  have m: "[101, 97, 116, 115] \<in> set (selector lower_basic [101] [[97], [116], [115]]
          [[101, 97, 116, 115], [101, 97, 115, 101], [116, 101, 97]] 4)"
    unfolding s by simp
  note t1 = pangram_iff [of "[101, 97, 116, 115]" "[101]" "[[97], [116], [115]]" lower_basic
      "[[101, 97, 116, 115], [101, 97, 115, 101], [116, 101, 97]]"]
  note t2 = pangram_iff [of "[101, 97, 115, 101]" "[101]" "[[97], [116], [115]]" lower_basic
      "[[101, 97, 116, 115], [101, 97, 115, 101], [116, 101, 97]]"]
  from t1 m p have A: "[101, 97, 116, 115] \<in> set (pangrams [101] [[97], [116], [115]]
       (puzzle_words lower_basic [101] [[97], [116], [115]]
          [[101, 97, 116, 115], [101, 97, 115, 101], [116, 101, 97]]))"
    by blast
  from t2 q have B: "[101, 97, 115, 101] \<notin> set (pangrams [101] [[97], [116], [115]]
       (puzzle_words lower_basic [101] [[97], [116], [115]]
          [[101, 97, 116, 115], [101, 97, 115, 101], [116, 101, 97]]))"
    by blast
  from t1 l have C: "{[101]} \<union> set [[97], [116], [115]] =
       allowed_letters lower_basic (lower_basic [101]) [[97], [116], [115]]"
    by blast
  from A B C show ?thesis by blast
qed

text \<open>
  C9. \<open>selector\<close> has no error branch: for every \<open>must_have\<close>, the empty string and
  longer strings too, it returns the lowercased words of length at least \<open>min_length\<close> that
  hold the lowercased \<open>must_have\<close> as a contiguous substring and whose characters are all
  allowed. With the empty \<open>must_have\<close> (whose lowercase form is empty) these are the
  lowercased words of that length whose characters are lowercased members of \<open>optional\<close>.
\<close>

theorem selector_total:
  "selector lower must_have optional words min_length =
     filter (\<lambda>w. min_length \<le> int (length w) \<and> sublist (lower must_have) w
                 \<and> str_set w \<subseteq> {lower must_have} \<union> lower ` set optional)
       (map lower words)
   \<and> (lower [] = [] \<longrightarrow>
        selector lower [] optional words min_length =
          filter (\<lambda>w. min_length \<le> int (length w) \<and> str_set w \<subseteq> lower ` set optional)
            (map lower words))"
proof -
  have a: "keeps (lower mh) (allowed_letters lower (lower mh) optional) min_length =
        (\<lambda>w. min_length \<le> int (length w) \<and> sublist (lower mh) w
                 \<and> str_set w \<subseteq> {lower mh} \<union> lower ` set optional)" for mh
    by (auto simp: keeps_def allowed_letters_def str_in_sublist fun_eq_iff)
  have b: "str_set w \<subseteq> insert [] A \<longleftrightarrow> str_set w \<subseteq> A" for w and A :: "pystr set"
    by (auto simp: str_set_def)
  have c: "selector lower [] optional words min_length =
          filter (\<lambda>w. min_length \<le> int (length w) \<and> str_set w \<subseteq> lower ` set optional)
            (map lower words)" if e: "lower [] = []"
    using a[of "[]"] by (simp add: selector_filter e b)
  show ?thesis
    using c by (simp add: selector_filter a)
qed

theorem selector_total_witness:
  "lower_basic [] = []
   \<and> selector lower_basic [] [[97], [66]] [[65, 66], [99], []] 0 = [[97, 98], []]"
proof -
  have h: "lower_basic [] = []" by (simp add: lower_basic_def)
  from selector_total [of lower_basic "[]" "[[97], [66]]" "[[65, 66], [99], []]" 0] h
  have "selector lower_basic [] [[97], [66]] [[65, 66], [99], []] 0 =
          filter (\<lambda>w. 0 \<le> int (length w) \<and> str_set w \<subseteq> lower_basic ` set [[97], [66]])
            (map lower_basic [[65, 66], [99], []])"
    by blast
  also have "\<dots> = [[97, 98], []]"
    by (simp add: lower_basic_def lower_cp_def str_set_def)
  finally show ?thesis using h by simp
qed

text \<open>
  C10. \<open>selector\<close> keeps duplicates: when the lowercase form of \<open>w\<close> passes the filter,
  it occurs in the result as many times as there are words in the input with that
  lowercase form.
\<close>

theorem selector_multiplicity:
  assumes "min_length \<le> int (length (lower w))"
    and "sublist (lower must_have) (lower w)"
    and "str_set (lower w) \<subseteq> {lower must_have} \<union> lower ` set optional"
  shows "count_list (selector lower must_have optional words min_length) (lower w) =
           length (filter (\<lambda>u. lower u = lower w) words)"
  using assms
  by (simp add: selector_filter count_list_filter count_list_map_length keeps_def
      allowed_letters_def str_in_sublist)

theorem selector_multiplicity_witness:
  "count_list (selector lower_basic [101] [[97], [116], [115]]
       [[69, 97, 116, 115], [101, 97, 116, 115], [116, 101, 97], [69, 65, 84, 83]] 4)
     (lower_basic [69, 97, 116, 115]) = 3"
proof -
  have a: "(4::int) \<le> int (length (lower_basic [69, 97, 116, 115]))"
    by (simp add: lower_basic_def)
  have b: "sublist (lower_basic [101]) (lower_basic [69, 97, 116, 115])"
    by (simp add: lower_basic_def lower_cp_def flip: str_in_sublist)
  have c: "str_set (lower_basic [69, 97, 116, 115]) \<subseteq>
             {lower_basic [101]} \<union> lower_basic ` set [[97], [116], [115]]"
    by (simp add: lower_basic_def lower_cp_def str_set_def)
  have r: "length (filter (\<lambda>u. lower_basic u = lower_basic [69, 97, 116, 115])
             [[69, 97, 116, 115], [101, 97, 116, 115], [116, 101, 97], [69, 65, 84, 83]]) = 3"
    by (simp add: lower_basic_def lower_cp_def)
  show ?thesis
    by (simp only: selector_multiplicity [OF a b c] r)
qed

end
